theory Spec2Isabelle
  imports Main "HOL-Library.Sublist" "HOL-Library.Multiset"
begin

section \<open>Archives URL Fetcher: the fetch-and-check engine of archive.py\<close>

text \<open>
  The extension is one Jython class, \<^verbatim>\<open>BurpExtender\<close>. Its engine is the pair
  \<^verbatim>\<open>_fetch_and_check_urls\<close> (the coordinator: validation, the archive query, the
  filter, the queue, the worker threads, \<^verbatim>\<open>q.join()\<close>, the report) and
  \<^verbatim>\<open>_url_checker\<close> (the body of every worker thread). Strings are byte strings
  (\<^typ>\<open>string\<close>); the network is a parameter of the model.
\<close>

subsection \<open>The string builtins the code calls\<close>

text \<open>\<^verbatim>\<open>str.lower()\<close>: the letters A to Z are mapped to a to z, every other
  character is kept.\<close>

definition lower_char :: "char \<Rightarrow> char" where
  "lower_char c =
     (let n = (of_char c :: nat) in if 65 \<le> n \<and> n \<le> 90 then char_of (n + 32) else c)"

definition lower :: "string \<Rightarrow> string" where
  "lower s = map lower_char s"

text \<open>\<^verbatim>\<open>s.endswith(ext)\<close> and \<^verbatim>\<open>s.startswith(p)\<close>.\<close>

definition endswith :: "string \<Rightarrow> string \<Rightarrow> bool" where
  "endswith s ext = (length ext \<le> length s \<and> drop (length s - length ext) s = ext)"

definition startswith :: "string \<Rightarrow> string \<Rightarrow> bool" where
  "startswith s p = (take (length p) s = p)"

text \<open>\<^verbatim>\<open>s.strip()\<close> removes leading and trailing whitespace: space, tab, line
  feed, vertical tab, form feed, carriage return.\<close>

definition is_space :: "char \<Rightarrow> bool" where
  "is_space c = (let n = (of_char c :: nat) in n = 32 \<or> (9 \<le> n \<and> n \<le> 13))"

definition strip :: "string \<Rightarrow> string" where
  "strip s = rev (dropWhile is_space (rev (dropWhile is_space s)))"

text \<open>\<^verbatim>\<open>str(n)\<close> and \<^verbatim>\<open>"{}".format(n)\<close> of an integer: its decimal digits,
  with a minus sign when negative.\<close>

definition digit_char :: "nat \<Rightarrow> char" where
  "digit_char d = char_of (48 + d)"

fun str_nat :: "nat \<Rightarrow> string" where
  "str_nat n = (if n < 10 then [digit_char n] else str_nat (n div 10) @ [digit_char (n mod 10)])"

declare str_nat.simps [simp del]

definition str_int :: "int \<Rightarrow> string" where
  "str_int i = (if i < 0 then CHR ''-'' # str_nat (nat (- i)) else str_nat (nat i))"

text \<open>\<^verbatim>\<open>int(s)\<close> of a string: surrounding whitespace is ignored, then an optional
  sign and at least one decimal digit; anything else raises \<^verbatim>\<open>ValueError\<close>, which
  is \<^const>\<open>None\<close> here. Python's integers are unbounded.\<close>

definition is_digit :: "char \<Rightarrow> bool" where
  "is_digit c = (let n = (of_char c :: nat) in 48 \<le> n \<and> n \<le> 57)"

definition digits_val :: "string \<Rightarrow> nat" where
  "digits_val ds = foldl (\<lambda>a c. 10 * a + (of_char c - 48)) 0 ds"

definition py_int :: "string \<Rightarrow> int option" where
  "py_int s =
     (let t = strip s;
          neg = (t \<noteq> [] \<and> hd t = CHR ''-'');
          ds = (if t \<noteq> [] \<and> (hd t = CHR ''-'' \<or> hd t = CHR ''+'') then tl t else t)
      in if ds \<noteq> [] \<and> list_all is_digit ds
         then Some (if neg then - int (digits_val ds) else int (digits_val ds))
         else None)"

text \<open>\<^verbatim>\<open>urllib.quote(s)\<close> with its default \<^verbatim>\<open>safe='/'\<close>: letters, digits and
  \<^verbatim>\<open>_.-/\<close> are kept, every other byte becomes a percent sign and two upper-case
  hexadecimal digits.\<close>

definition always_safe :: string where
  "always_safe = ''ABCDEFGHIJKLMNOPQRSTUVWXYZabcdefghijklmnopqrstuvwxyz0123456789_.-''"

definition hex_digit :: "nat \<Rightarrow> char" where
  "hex_digit d = (if d < 10 then char_of (48 + d) else char_of (55 + d))"

definition quote_char :: "char \<Rightarrow> string" where
  "quote_char c =
     (if c \<in> set (always_safe @ ''/'') then [c]
      else [CHR ''%'', hex_digit ((of_char c :: nat) div 16), hex_digit ((of_char c :: nat) mod 16)])"

definition quote :: "string \<Rightarrow> string" where
  "quote s = concat (map quote_char s)"

text \<open>\<^verbatim>\<open>"{:<n}".format(s)\<close>: left-justified in a field of at least \<open>n\<close> characters.\<close>

definition ljust :: "nat \<Rightarrow> string \<Rightarrow> string" where
  "ljust n s = s @ replicate (n - length s) CHR '' ''"

abbreviation (input) nl :: string where
  "nl \<equiv> [CHR 0x0A]"

subsection \<open>The URL source filter (lines 272 to 275)\<close>

definition excluded_extensions :: "string list" where
  "excluded_extensions =
     [''.eot'', ''.svg'', ''.woff'', ''.woff2'', ''.css'', ''.ttf'', ''.png'', ''.jpg'',
      ''.jpeg'', ''.gif'']"

text \<open>\<^verbatim>\<open>[url for url in lines if not any(url.lower().endswith(ext) for ext in
  excluded_extensions)]\<close>\<close>

definition filtered_urls :: "string list \<Rightarrow> string list" where
  "filtered_urls lines =
     filter (\<lambda>url. \<not> list_ex (\<lambda>ext. endswith (lower url) ext) excluded_extensions) lines"

subsection \<open>The probe of one URL (the try block of \<^verbatim>\<open>_url_checker\<close>, lines 190 to 208)\<close>

text \<open>
  An element of \<^verbatim>\<open>results\<close> is the tuple \<^verbatim>\<open>(status, size, url_string)\<close>. The network
  is a function from the URL that is opened to what the connection does: a response with the
  values of \<^verbatim>\<open>getResponseCode()\<close> and \<^verbatim>\<open>getContentLength()\<close>, or the exception
  raised on the way (by \<^verbatim>\<open>URL(...)\<close>, \<^verbatim>\<open>openConnection()\<close> or
  \<^verbatim>\<open>getResponseCode()\<close>), given by its text \<^verbatim>\<open>str(e_check)\<close>. For a response that
  is not valid HTTP, \<^verbatim>\<open>getResponseCode()\<close> returns -1 without raising: that is the
  response with status -1.
\<close>

type_synonym outcome = "int \<times> int \<times> string"

datatype response = Response int int | Failure string

type_synonym network = "string \<Rightarrow> response"

text \<open>Lines 191 and 192.\<close>

definition normalize_url :: "string \<Rightarrow> string" where
  "normalize_url url_string =
     (if \<not> (startswith url_string ''http://'' \<or> startswith url_string ''https://'')
      then ''http://'' @ url_string else url_string)"

text \<open>Lines 190 to 208: what the try block appends to \<^verbatim>\<open>results\<close>.\<close>

definition url_checker_try :: "network \<Rightarrow> string \<Rightarrow> outcome list" where
  "url_checker_try net url_string =
     (let u = normalize_url url_string in
      case net u of
        Response status size_v \<Rightarrow>
          if status \<noteq> 400 \<and> status \<noteq> 404 then [(status, size_v, u)] else []
      | Failure e_check \<Rightarrow>
          [(- 1, - 1, ''[!] Error on '' @ u @ '': '' @ e_check)])"

subsection \<open>The report (lines 297 to 312)\<close>

text \<open>\<^verbatim>\<open>sorted(results, key=lambda item: item[1], reverse=True)\<close>: a stable sort,
  descending in the size; elements of equal size keep their order.\<close>

definition sorted_results :: "outcome list \<Rightarrow> outcome list" where
  "sorted_results results = sort_key (\<lambda>item. - fst (snd item)) results"

text \<open>\<^verbatim>\<open>"{:<8} {:<15} {}\n".format(a, b, c)\<close>\<close>

definition format_row :: "string \<Rightarrow> string \<Rightarrow> string \<Rightarrow> string" where
  "format_row a b c = ljust 8 a @ '' '' @ ljust 15 b @ '' '' @ c @ nl"

definition render_item :: "outcome \<Rightarrow> string" where
  "render_item result_item =
     (case result_item of (status, size_v, url_string) \<Rightarrow>
        if status = - 1 then url_string @ nl
        else format_row (str_int status) (if size_v \<noteq> - 1 then str_int size_v else ''N/A'')
               url_string)"

definition build_report :: "outcome list \<Rightarrow> string" where
  "build_report results =
     format_row ''Status'' ''Response Size'' ''URL''
     @ format_row ''------'' ''-------------'' ''---''
     @ concat (map render_item (sorted_results results))"

subsection \<open>The shared state of a run\<close>

text \<open>
  A worker thread is at one of the points of \<^verbatim>\<open>_url_checker\<close> where it reads or writes
  shared state: before \<^verbatim>\<open>q.empty()\<close>, before \<^verbatim>\<open>self._stop_event.is_set()\<close> (the
  \<^verbatim>\<open>and\<close> is evaluated left to right), before \<^verbatim>\<open>q.get()\<close>, in the try block with
  the URL it took, before the counter update of the finally block, before
  \<^verbatim>\<open>q.task_done()\<close>, or it has left the loop. The coordinator is blocked in
  \<^verbatim>\<open>q.join()\<close>, or has returned from it and is about to write the report, or is done.
\<close>

datatype wstate = LoopHead | StopCheck | Getting | Probing string | Counting | TaskDone | Exited

datatype cstate = Joining | Reporting | Done

record pool =
  queue :: "string list"
  unfinished_tasks :: nat
  results :: "outcome list"
  checked_count :: nat
  stop_event :: bool
  workers :: "wstate list"
  coord :: cstate
  output_area :: string
  status_label :: string
  total_urls :: nat

text \<open>
  One step of worker \<open>i\<close> (lines 188 to 215). \<^verbatim>\<open>q.get()\<close> blocks on an empty queue
  (no step); \<^verbatim>\<open>q.task_done()\<close> raises \<^verbatim>\<open>ValueError\<close> when nothing is unfinished,
  which ends the thread.
\<close>

definition worker_step :: "network \<Rightarrow> nat \<Rightarrow> pool \<Rightarrow> pool option" where
  "worker_step net i s =
     (if length (workers s) \<le> i then None
      else case workers s ! i of
        LoopHead \<Rightarrow>
          Some (s\<lparr>workers := (workers s)[i := (if queue s = [] then Exited else StopCheck)]\<rparr>)
      | StopCheck \<Rightarrow>
          Some (s\<lparr>workers := (workers s)[i := (if stop_event s then Exited else Getting)]\<rparr>)
      | Getting \<Rightarrow>
          (case queue s of
             [] \<Rightarrow> None
           | url_string # rest \<Rightarrow>
               Some (s\<lparr>queue := rest, workers := (workers s)[i := Probing url_string]\<rparr>))
      | Probing url_string \<Rightarrow>
          Some (s\<lparr>results := results s @ url_checker_try net url_string,
                  workers := (workers s)[i := Counting]\<rparr>)
      | Counting \<Rightarrow>
          Some (s\<lparr>checked_count := checked_count s + 1,
                  status_label := ''Checking: '' @ str_nat (checked_count s + 1) @ '' / ''
                                  @ str_nat (total_urls s),
                  workers := (workers s)[i := TaskDone]\<rparr>)
      | TaskDone \<Rightarrow>
          (if unfinished_tasks s = 0 then Some (s\<lparr>workers := (workers s)[i := Exited]\<rparr>)
           else Some (s\<lparr>unfinished_tasks := unfinished_tasks s - 1,
                        workers := (workers s)[i := LoopHead]\<rparr>))
      | Exited \<Rightarrow> None)"

text \<open>The coordinator from \<^verbatim>\<open>q.join()\<close> on (lines 295 to 319): the join returns when
  no task is unfinished; then the report and the closing line are appended.\<close>

definition coord_step :: "pool \<Rightarrow> pool option" where
  "coord_step s =
     (case coord s of
        Joining \<Rightarrow> if unfinished_tasks s = 0 then Some (s\<lparr>coord := Reporting\<rparr>) else None
      | Reporting \<Rightarrow>
          Some (s\<lparr>output_area := output_area s @ build_report (results s)
                    @ (if stop_event s then nl @ ''[*] Process stopped by user.''
                       else nl @ ''[*] All checks complete.''),
                  status_label := (if stop_event s then ''Status: Stopped'' else ''Status: Complete''),
                  coord := Done\<rparr>)
      | Done \<Rightarrow> None)"

text \<open>\<^verbatim>\<open>_on_stop_button_click\<close> (lines 157 to 161). The button is enabled from the start
  of the run until it is clicked or the run ends.\<close>

definition stop_click :: "pool \<Rightarrow> pool option" where
  "stop_click s =
     (if stop_event s \<or> coord s = Done then None
      else Some (s\<lparr>output_area := output_area s @ nl
                     @ ''[*] Stop request received. Finishing current checks...'' @ nl,
                   stop_event := True\<rparr>))"

text \<open>
  Outside the model: the Clear Log and Download Log buttons, the enabling of the Fetch
  button, and threads that \<^verbatim>\<open>q.get()\<close> leaves blocked for good (they are daemon threads).
  A stop request made while the archive is still being queried appears here as one made
  before the first step of the pool.
\<close>

text \<open>Threads interleave: a schedule names who moves next. A schedule that names a thread
  which cannot move is not an execution.\<close>

datatype action = Worker nat | Coordinator | StopClick

definition act :: "network \<Rightarrow> action \<Rightarrow> pool \<Rightarrow> pool option" where
  "act net a s =
     (case a of Worker i \<Rightarrow> worker_step net i s | Coordinator \<Rightarrow> coord_step s
      | StopClick \<Rightarrow> stop_click s)"

fun run_schedule :: "network \<Rightarrow> action list \<Rightarrow> pool \<Rightarrow> pool option" where
  "run_schedule net [] s = Some s"
| "run_schedule net (a # sched) s =
     (case act net a s of None \<Rightarrow> None | Some s' \<Rightarrow> run_schedule net sched s')"

subsection \<open>The coordinator up to the start of the threads (lines 221 to 293)\<close>

text \<open>
  A run that ends before any thread is started leaves the text of the output area and of the
  status label; \<open>archive_requests\<close> lists the URLs the run has opened by then. The archive
  index is a function from the query URL to the lines read, or to the text of the exception
  raised while connecting or reading.
\<close>

record run_end =
  end_output :: string
  end_status :: string
  archive_requests :: "string list"

type_synonym archive = "string \<Rightarrow> string + string list"

definition target_url :: "string \<Rightarrow> int \<Rightarrow> string" where
  "target_url domain limit =
     ''http://web.archive.org/cdx/search/cdx?url='' @ quote domain @ ''&matchType=domain''
     @ ''&limit='' @ str_int limit @ ''&fl=original&collapse=urlkey''"

definition fetch_error_message :: "string \<Rightarrow> string" where
  "fetch_error_message e_fetch =
     ''[!] Error retrieving archived URLs.'' @ nl
     @ ''    Please check the domain and your network connection.'' @ nl @ nl
     @ ''    Error details: '' @ e_fetch @ nl"

definition start_pool :: "string \<Rightarrow> string list \<Rightarrow> nat \<Rightarrow> pool" where
  "start_pool out filtered thread_count =
     \<lparr>queue = filtered, unfinished_tasks = length filtered, results = [], checked_count = 0,
      stop_event = False, workers = replicate thread_count LoopHead, coord = Joining,
      output_area = out @ ''[*] '' @ str_nat (length filtered)
        @ '' URLs remain after filtering. Starting HTTP checks with '' @ str_nat thread_count
        @ '' threads...'' @ nl @ nl,
      status_label = ''Checking: 0 / '' @ str_nat (length filtered),
      total_urls = length filtered\<rparr>"

definition fetch_and_check_urls :: "archive \<Rightarrow> string \<Rightarrow> string \<Rightarrow> nat \<Rightarrow> run_end + pool" where
  "fetch_and_check_urls fetch domain_text limit_text thread_count =
     (let domain = strip domain_text in
      if domain = [] then
        Inl \<lparr>end_output = ''Error: Please enter a domain name.'',
             end_status = ''Status: Error'', archive_requests = []\<rparr>
      else case py_int (strip limit_text) of
        None \<Rightarrow>
          Inl \<lparr>end_output = ''Error: Invalid limit. Please enter a number.'',
               end_status = ''Status: Error'', archive_requests = []\<rparr>
      | Some limit \<Rightarrow>
          (let out = ''[*] Preparing to fetch URLs for: '' @ domain @ nl
                     @ ''[*] Contacting: '' @ target_url domain limit @ nl
           in case fetch (target_url domain limit) of
                Inl e_fetch \<Rightarrow>
                  Inl \<lparr>end_output = fetch_error_message e_fetch,
                       end_status = ''Status: Fetch Error'',
                       archive_requests = [target_url domain limit]\<rparr>
              | Inr lines \<Rightarrow>
                  if lines = [] then
                    Inl \<lparr>end_output = out @ nl
                           @ ''[!] Error retrieving archived URLs. The response was empty.'',
                         end_status = ''Status: Error'',
                         archive_requests = [target_url domain limit]\<rparr>
                  else
                    Inr (start_pool
                          (out @ ''[*] Found '' @ str_nat (length lines) @ '' total URLs.'' @ nl)
                          (filtered_urls lines) thread_count)))"

subsection \<open>Bookkeeping of the targets\<close>

text \<open>
  For the proofs: a worker holds a target that \<^verbatim>\<open>q.task_done()\<close> has not yet been called
  for (\<open>in_flight\<close>), that the counter has not yet been incremented for (\<open>uncounted\<close>), and
  whose outcome is not yet in \<^verbatim>\<open>results\<close> (\<open>pending\<close>). \<open>pool_inv\<close> relates the
  queue's counter of unfinished tasks, the counter of checked URLs and the results to them;
  \<open>exit_inv\<close> says that without a stop request a worker has only left the loop on an empty
  queue.
\<close>

fun in_flight :: "wstate \<Rightarrow> nat" where
  "in_flight (Probing u) = 1"
| "in_flight Counting = 1"
| "in_flight TaskDone = 1"
| "in_flight _ = 0"

fun uncounted :: "wstate \<Rightarrow> nat" where
  "uncounted (Probing u) = 1"
| "uncounted Counting = 1"
| "uncounted _ = 0"

fun pending :: "network \<Rightarrow> wstate \<Rightarrow> outcome multiset" where
  "pending net (Probing u) = mset (url_checker_try net u)"
| "pending net _ = {#}"

definition pool_inv :: "network \<Rightarrow> outcome multiset \<Rightarrow> pool \<Rightarrow> bool" where
  "pool_inv net every s \<longleftrightarrow>
     unfinished_tasks s = length (queue s) + sum_list (map in_flight (workers s))
   \<and> checked_count s + length (queue s) + sum_list (map uncounted (workers s)) = total_urls s
   \<and> mset (results s) + mset (concat (map (url_checker_try net) (queue s)))
       + sum_list (map (pending net) (workers s)) = every
   \<and> (coord s = Joining \<or> unfinished_tasks s = 0)"


subsection \<open>What the specification calls a scheme\<close>

text \<open>
  For the comparison with the specification, which speaks of a URL that has or lacks a
  scheme: a URL has a scheme when it starts with a letter, followed by letters, digits,
  plus, minus or dot, and then \<^verbatim>\<open>://\<close> (the syntax of RFC 3986). The code does not use
  this predicate; it tests for the two prefixes of \<open>normalize_url\<close>.
\<close>

definition is_alpha :: "char \<Rightarrow> bool" where
  "is_alpha c = (let n = (of_char c :: nat) in (65 \<le> n \<and> n \<le> 90) \<or> (97 \<le> n \<and> n \<le> 122))"

definition scheme_char :: "char \<Rightarrow> bool" where
  "scheme_char c = (is_alpha c \<or> is_digit c \<or> c = CHR ''+'' \<or> c = CHR ''-'' \<or> c = CHR ''.'')"

definition spec_has_scheme :: "string \<Rightarrow> bool" where
  "spec_has_scheme url =
     (let sch = takeWhile scheme_char url
      in sch \<noteq> [] \<and> is_alpha (hd sch) \<and> startswith (drop (length sch) url) ''://'')"

subsection \<open>Invariants of a run\<close>


text \<open>
  For a pool that starts on an empty queue: \<open>empty_inv\<close> says that nothing is queued,
  unfinished or reported and every worker is before its first test or has left;
  \<open>quiet_inv\<close> says, for a run without a stop request, what the output area and the status
  label hold; \<open>steps_left\<close> counts the steps such a run can still take.
\<close>

fun at_loop_head :: "wstate \<Rightarrow> nat" where
  "at_loop_head LoopHead = 1"
| "at_loop_head _ = 0"

fun coord_steps_left :: "cstate \<Rightarrow> nat" where
  "coord_steps_left Joining = 2"
| "coord_steps_left Reporting = 1"
| "coord_steps_left Done = 0"

definition steps_left :: "pool \<Rightarrow> nat" where
  "steps_left s = sum_list (map at_loop_head (workers s)) + coord_steps_left (coord s)"

definition empty_inv :: "pool \<Rightarrow> bool" where
  "empty_inv s \<longleftrightarrow>
     queue s = [] \<and> unfinished_tasks s = 0 \<and> results s = []
     \<and> list_all (\<lambda>w. w = LoopHead \<or> w = Exited) (workers s)"

definition quiet_inv :: "string \<Rightarrow> pool \<Rightarrow> bool" where
  "quiet_inv out0 s \<longleftrightarrow>
     \<not> stop_event s
     \<and> (if coord s = Done
         then output_area s = out0 @ build_report [] @ nl @ ''[*] All checks complete.''
              \<and> status_label s = ''Status: Complete''
         else output_area s = out0)"




text \<open>\<open>stop_pending\<close>: the stop event is set while targets are still queued, the
  coordinator waits in \<^verbatim>\<open>q.join()\<close>, and no worker stands between its test of the event
  and \<^verbatim>\<open>q.get()\<close>.\<close>

definition stop_pending :: "pool \<Rightarrow> bool" where
  "stop_pending s \<longleftrightarrow>
     stop_event s \<and> queue s \<noteq> [] \<and> coord s = Joining \<and> Getting \<notin> set (workers s)"

section \<open>Properties\<close>

subsection \<open>Builtins\<close>

lemma endswith_suffix: "endswith s ext \<longleftrightarrow> suffix ext s"
proof
  assume "endswith s ext"
  then have "s = take (length s - length ext) s @ ext"
    by (metis append_take_drop_id endswith_def)
  then show "suffix ext s"
    by (rule suffixI)
next
  assume "suffix ext s"
  then obtain zs where "s = zs @ ext"
    by (auto simp: suffix_def)
  then show "endswith s ext"
    by (simp add: endswith_def)
qed

lemma startswith_prefix: "startswith s p \<longleftrightarrow> prefix p s"
  by (auto simp: startswith_def prefix_def) (metis append_eq_conv_conj)

subsection \<open>The filter\<close>

text \<open>
  C3. For every list of URL strings the filter returns exactly the elements whose lowercased
  form ends with none of the ten suffixes, in their original order: no retained element
  ends (lowercased) with a denylisted suffix, the result is a subsequence of the input, and
  the empty list is mapped to the empty list. The filter is a function of the list only.
\<close>

theorem C3_filter_retains_exactly_non_assets:
  "filtered_urls ls =
     filter (\<lambda>u. \<not> (\<exists>ext \<in> {''.eot'', ''.svg'', ''.woff'', ''.woff2'', ''.css'', ''.ttf'',
                               ''.png'', ''.jpg'', ''.jpeg'', ''.gif''}. suffix ext (lower u))) ls
   \<and> (\<forall>u \<in> set (filtered_urls ls).
        \<forall>ext \<in> {''.eot'', ''.svg'', ''.woff'', ''.woff2'', ''.css'', ''.ttf'',
                  ''.png'', ''.jpg'', ''.jpeg'', ''.gif''}. \<not> suffix ext (lower u))
   \<and> subseq (filtered_urls ls) ls
   \<and> filtered_urls [] = []"
  by (simp add: filtered_urls_def excluded_extensions_def endswith_suffix)

theorem C3_filter_witness:
  "filtered_urls [''http://example.com/a.png'', ''http://example.com/b'',
                  ''example.com/c.css'', ''HTTP://EXAMPLE.COM/D.JPEG'', ''example.com/e.png?x'']
     = [''http://example.com/b'', ''example.com/e.png?x'']
   \<and> subseq [''http://example.com/b'', ''example.com/e.png?x'']
        [''http://example.com/a.png'', ''http://example.com/b'',
         ''example.com/c.css'', ''HTTP://EXAMPLE.COM/D.JPEG'', ''example.com/e.png?x'']"
proof -
  let ?ls = "[''http://example.com/a.png'', ''http://example.com/b'',
              ''example.com/c.css'', ''HTTP://EXAMPLE.COM/D.JPEG'', ''example.com/e.png?x'']"
  have ev: "filtered_urls ?ls = [''http://example.com/b'', ''example.com/e.png?x'']"
    by code_simp
  from C3_filter_retains_exactly_non_assets [of ?ls]
  have "subseq (filtered_urls ?ls) ?ls"
    by (elim conjE)
  with ev show ?thesis
    by (simp only: simp_thms)
qed

subsection \<open>The worker pool\<close>

lemma sum_list_map_update:
  fixes f :: "'a \<Rightarrow> 'b::comm_monoid_add"
  shows "i < length xs \<Longrightarrow> sum_list (map f (xs[i := y])) + f (xs ! i) = sum_list (map f xs) + f y"
proof (induction xs arbitrary: i)
  case Nil
  then show ?case by simp
next
  case (Cons x xs)
  show ?case
  proof (cases i)
    case 0
    then show ?thesis by (simp add: ac_simps)
  next
    case (Suc j)
    with Cons.prems have "j < length xs" by simp
    from Cons.IH [OF this] Suc show ?thesis
      by (simp add: add.assoc)
  qed
qed

lemma worker_step_inv:
  assumes inv: "pool_inv net every s" and st: "worker_step net i s = Some s'"
  shows "pool_inv net every s'"
proof -
  from st have i: "i < length (workers s)"
    by (auto simp: worker_step_def split: if_splits)
  note u1 = sum_list_map_update [OF i, of in_flight]
  note u2 = sum_list_map_update [OF i, of uncounted]
  note u3 = sum_list_map_update [OF i, of "pending net"]
  show ?thesis
  proof (cases "workers s ! i")
    case LoopHead
    with inv st i u1 [of "if queue s = [] then Exited else StopCheck"]
      u2 [of "if queue s = [] then Exited else StopCheck"]
      u3 [of "if queue s = [] then Exited else StopCheck"]
    show ?thesis
      by (auto simp: worker_step_def pool_inv_def)
  next
    case StopCheck
    with inv st i u1 [of "if stop_event s then Exited else Getting"]
      u2 [of "if stop_event s then Exited else Getting"]
      u3 [of "if stop_event s then Exited else Getting"]
    show ?thesis
      by (auto simp: worker_step_def pool_inv_def)
  next
    case Getting
    from st i Getting obtain u rest where q: "queue s = u # rest"
      and s': "s' = s\<lparr>queue := rest, workers := (workers s)[i := Probing u]\<rparr>"
      by (auto simp: worker_step_def split: list.splits)
    from inv q s' Getting u1 [of "Probing u"] u2 [of "Probing u"] u3 [of "Probing u"]
    show ?thesis
      by (auto simp: pool_inv_def ac_simps)
  next
    case (Probing u)
    with st i have s': "s' = s\<lparr>results := results s @ url_checker_try net u,
                  workers := (workers s)[i := Counting]\<rparr>"
      by (auto simp: worker_step_def)
    from inv s' Probing u1 [of Counting] u2 [of Counting] u3 [of Counting]
    show ?thesis
      by (auto simp: pool_inv_def ac_simps)
  next
    case Counting
    with st i have s': "s' = s\<lparr>checked_count := checked_count s + 1,
                  status_label := ''Checking: '' @ str_nat (checked_count s + 1) @ '' / ''
                                  @ str_nat (total_urls s),
                  workers := (workers s)[i := TaskDone]\<rparr>"
      by (auto simp: worker_step_def)
    from inv s' Counting u1 [of TaskDone] u2 [of TaskDone] u3 [of TaskDone]
    show ?thesis
      by (auto simp: pool_inv_def)
  next
    case TaskDone
    from TaskDone u1 [of Exited] have "1 \<le> sum_list (map in_flight (workers s))"
      by simp
    with inv have pos: "unfinished_tasks s \<noteq> 0"
      unfolding pool_inv_def by linarith
    with st i TaskDone have s': "s' = s\<lparr>unfinished_tasks := unfinished_tasks s - 1,
                        workers := (workers s)[i := LoopHead]\<rparr>"
      by (auto simp: worker_step_def)
    from inv s' TaskDone pos u1 [of LoopHead] u2 [of LoopHead] u3 [of LoopHead]
    show ?thesis
      by (auto simp: pool_inv_def)
  next
    case Exited
    with st i show ?thesis
      by (auto simp: worker_step_def)
  qed
qed

lemma coord_step_inv:
  "pool_inv net every s \<Longrightarrow> coord_step s = Some s' \<Longrightarrow> pool_inv net every s'"
  by (cases "coord s")
     (auto simp: coord_step_def pool_inv_def simp del: sum_list_eq_0_iff split: if_splits)

lemma stop_click_inv:
  "pool_inv net every s \<Longrightarrow> stop_click s = Some s' \<Longrightarrow> pool_inv net every s'"
  by (auto simp: stop_click_def pool_inv_def simp del: sum_list_eq_0_iff split: if_splits)

lemma act_inv:
  "pool_inv net every s \<Longrightarrow> act net a s = Some s' \<Longrightarrow> pool_inv net every s'"
  by (cases a) (auto simp: act_def intro: worker_step_inv coord_step_inv stop_click_inv)







lemma set_update_cases: "x \<in> set (xs[i := y]) \<Longrightarrow> x = y \<or> x \<in> set xs"
  using set_update_subset_insert [of xs i y] by auto






lemma act_keeps_totals:
  "act net a s = Some s' \<Longrightarrow>
     total_urls s' = total_urls s \<and> length (workers s') = length (workers s)"
  by (cases a; cases "coord s")
     (auto simp: act_def worker_step_def coord_step_def stop_click_def
       split: if_splits wstate.splits list.splits)

lemma run_schedule_keeps_totals:
  "run_schedule net sched s = Some s' \<Longrightarrow>
     total_urls s' = total_urls s \<and> length (workers s') = length (workers s)"
proof (induction sched arbitrary: s)
  case Nil
  then show ?case by simp
next
  case (Cons a sched)
  from Cons.prems(1) obtain t where t: "act net a s = Some t"
    and r: "run_schedule net sched t = Some s'"
    by (auto split: option.splits)
  from act_keeps_totals [OF t] Cons.IH [OF r] show ?case
    by simp
qed




subsection \<open>The probe\<close>

lemma normalize_url_cases:
  "normalize_url u =
     (if prefix ''http://'' u \<or> prefix ''https://'' u then u else ''http://'' @ u)"
  by (simp only: normalize_url_def startswith_prefix) simp

lemma sublist_normalize_url: "sublist u (normalize_url u)"
proof (cases "prefix ''http://'' u \<or> prefix ''https://'' u")
  case True
  then show ?thesis by (simp only: normalize_url_cases if_True sublist_order.order.refl)
next
  case False
  then show ?thesis by (simp only: normalize_url_cases if_False sublist_append_leftI)
qed

lemma sublist_error_detail:
  "sublist u (''[!] Error on '' @ normalize_url u @ '': '' @ e)
   \<and> sublist e (''[!] Error on '' @ normalize_url u @ '': '' @ e)"
proof
  from sublist_normalize_url [of u] obtain ps ss where n: "normalize_url u = ps @ u @ ss"
    by (auto simp: sublist_def)
  have "''[!] Error on '' @ normalize_url u @ '': '' @ e
          = (''[!] Error on '' @ ps) @ u @ (ss @ '': '' @ e)"
    by (simp only: n append_assoc)
  then show "sublist u (''[!] Error on '' @ normalize_url u @ '': '' @ e)"
    unfolding sublist_def by blast
  have "''[!] Error on '' @ normalize_url u @ '': '' @ e
          = (''[!] Error on '' @ normalize_url u @ '': '') @ e @ []"
    by (simp only: append_assoc append_Nil2)
  then show "sublist e (''[!] Error on '' @ normalize_url u @ '': '' @ e)"
    unfolding sublist_def by blast
qed

text \<open>
  The try block by what the connection does. A response with status 400 or 404 appends
  nothing to the results; a response with any other status appends the outcome with that
  status and the content length the connection reports (the value of
  \<^verbatim>\<open>getContentLength()\<close>, which is -1 when unknown); an exception appends the outcome
  (-1, -1, detail), where the detail contains the URL and the text of the exception. In each
  case the worker's step is defined and takes it on to the finally block and from there to
  \<^verbatim>\<open>q.task_done()\<close>: no other thread and nothing else of the state is touched.
\<close>

theorem probe_outcome_by_response:
  "(net (normalize_url u) = Response st sz \<and> (st = 400 \<or> st = 404)
      \<longrightarrow> url_checker_try net u = [])
   \<and> (net (normalize_url u) = Response st sz \<and> st \<noteq> 400 \<and> st \<noteq> 404
      \<longrightarrow> url_checker_try net u = [(st, sz, normalize_url u)])
   \<and> (net (normalize_url u) = Failure e
      \<longrightarrow> url_checker_try net u = [(- 1, - 1, ''[!] Error on '' @ normalize_url u @ '': '' @ e)]
        \<and> sublist u (''[!] Error on '' @ normalize_url u @ '': '' @ e)
        \<and> sublist e (''[!] Error on '' @ normalize_url u @ '': '' @ e))
   \<and> (i < length (workers s) \<and> workers s ! i = Probing u
      \<longrightarrow> worker_step net i s =
            Some (s\<lparr>results := results s @ url_checker_try net u,
                    workers := (workers s)[i := Counting]\<rparr>))
   \<and> (i < length (workers s) \<and> workers s ! i = Counting
      \<longrightarrow> worker_step net i s =
            Some (s\<lparr>checked_count := checked_count s + 1,
                    status_label := ''Checking: '' @ str_nat (checked_count s + 1) @ '' / ''
                                    @ str_nat (total_urls s),
                    workers := (workers s)[i := TaskDone]\<rparr>))"
proof (intro conjI impI)
  assume "net (normalize_url u) = Response st sz \<and> (st = 400 \<or> st = 404)"
  then show "url_checker_try net u = []"
    by (auto simp: url_checker_try_def)
next
  assume "net (normalize_url u) = Response st sz \<and> st \<noteq> 400 \<and> st \<noteq> 404"
  then show "url_checker_try net u = [(st, sz, normalize_url u)]"
    by (simp add: url_checker_try_def)
next
  assume "net (normalize_url u) = Failure e"
  then show "url_checker_try net u
      = [(- 1, - 1, ''[!] Error on '' @ normalize_url u @ '': '' @ e)]"
    by (simp add: url_checker_try_def)
next
  show "sublist u (''[!] Error on '' @ normalize_url u @ '': '' @ e)"
    using sublist_error_detail by blast
next
  show "sublist e (''[!] Error on '' @ normalize_url u @ '': '' @ e)"
    using sublist_error_detail by blast
next
  assume "i < length (workers s) \<and> workers s ! i = Probing u"
  then show "worker_step net i s =
            Some (s\<lparr>results := results s @ url_checker_try net u,
                    workers := (workers s)[i := Counting]\<rparr>)"
    by (simp add: worker_step_def)
next
  assume "i < length (workers s) \<and> workers s ! i = Counting"
  then show "worker_step net i s =
            Some (s\<lparr>checked_count := checked_count s + 1,
                    status_label := ''Checking: '' @ str_nat (checked_count s + 1) @ '' / ''
                                    @ str_nat (total_urls s),
                    workers := (workers s)[i := TaskDone]\<rparr>)"
    by (simp add: worker_step_def)
qed

theorem probe_outcome_examples:
  "url_checker_try (\<lambda>u. if u = ''http://x/gone'' then Response 404 0
              else if u = ''http://down/'' then Failure ''timed out'' else Response 200 512)
     ''x/gone'' = []
   \<and> url_checker_try (\<lambda>u. if u = ''http://x/gone'' then Response 404 0
              else if u = ''http://down/'' then Failure ''timed out'' else Response 200 512)
     ''x/ok'' = [(200, 512, ''http://x/ok'')]
   \<and> url_checker_try (\<lambda>u. if u = ''http://x/gone'' then Response 404 0
              else if u = ''http://down/'' then Failure ''timed out'' else Response 200 512)
     ''http://down/'' = [(- 1, - 1, ''[!] Error on http://down/: timed out'')]
   \<and> worker_step (\<lambda>u. if u = ''http://x/gone'' then Response 404 0
              else if u = ''http://down/'' then Failure ''timed out'' else Response 200 512) 0
       \<lparr>queue = [], unfinished_tasks = 1, results = [], checked_count = 0, stop_event = False,
        workers = [Probing ''http://down/''], coord = Joining, output_area = '''',
        status_label = ''Checking: 0 / 1'', total_urls = 1\<rparr>
     = Some \<lparr>queue = [], unfinished_tasks = 1,
             results = [(- 1, - 1, ''[!] Error on http://down/: timed out'')],
             checked_count = 0, stop_event = False, workers = [Counting], coord = Joining,
             output_area = '''', status_label = ''Checking: 0 / 1'', total_urls = 1\<rparr>"
proof -
  let ?net = "\<lambda>u. if u = ''http://x/gone'' then Response 404 0
              else if u = ''http://down/'' then Failure ''timed out'' else Response 200 512"
  let ?s = "\<lparr>queue = [], unfinished_tasks = 1, results = [], checked_count = 0,
        stop_event = False, workers = [Probing ''http://down/''], coord = Joining,
        output_area = '''', status_label = ''Checking: 0 / 1'', total_urls = 1\<rparr>"
  have n1: "normalize_url ''x/gone'' = ''http://x/gone''"
    and n2: "normalize_url ''x/ok'' = ''http://x/ok''"
    and n3: "normalize_url ''http://down/'' = ''http://down/''"
    by code_simp+
  have h1: "?net (normalize_url ''x/gone'') = Response 404 0 \<and> ((404::int) = 400 \<or> (404::int) = 404)"
    by (simp add: n1)
  have h2: "?net (normalize_url ''x/ok'') = Response 200 512 \<and> (200::int) \<noteq> 400 \<and> (200::int) \<noteq> 404"
    by (simp add: n2)
  have h3: "?net (normalize_url ''http://down/'') = Failure ''timed out''"
    by (simp add: n3)
  have h4: "0 < length (workers ?s) \<and> workers ?s ! 0 = Probing ''http://down/''"
    by simp
  note r1 = probe_outcome_by_response [of ?net "''x/gone''" 404 0,
      THEN conjunct1, THEN mp, OF h1]
  note r2' = probe_outcome_by_response [of ?net "''x/ok''" 200 512,
      THEN conjunct2, THEN conjunct1, THEN mp, OF h2]
  from r2' have r2: "url_checker_try ?net ''x/ok'' = [(200, 512, ''http://x/ok'')]"
    by (simp only: n2)
  note r3' = probe_outcome_by_response [of ?net "''http://down/''" _ _ "''timed out''",
      THEN conjunct2, THEN conjunct2, THEN conjunct1, THEN mp, OF h3, THEN conjunct1]
  note w = probe_outcome_by_response [of ?net "''http://down/''" _ _ _ 0 ?s,
      THEN conjunct2, THEN conjunct2, THEN conjunct2, THEN conjunct1, THEN mp, OF h4]
  from r3' have "url_checker_try ?net ''http://down/''
          = [(- 1, - 1, ''[!] Error on '' @ normalize_url ''http://down/'' @ '': '' @ ''timed out'')]"
    .
  then have r3: "url_checker_try ?net ''http://down/''
          = [(- 1, - 1, ''[!] Error on http://down/: timed out'')]"
    by (simp only: n3 append.simps)
  from w have r4: "worker_step ?net 0 ?s =
      Some \<lparr>queue = [], unfinished_tasks = 1,
             results = [(- 1, - 1, ''[!] Error on http://down/: timed out'')],
             checked_count = 0, stop_event = False, workers = [Counting], coord = Joining,
             output_area = '''', status_label = ''Checking: 0 / 1'', total_urls = 1\<rparr>"
    by (simp add: r3)
  from r1 r2 r3 r4 show ?thesis
    by (intro conjI)
qed

text \<open>
  C4. The code at a response that is not valid HTTP (a status line such as
  \<^verbatim>\<open>ICY 200 OK\<close>): \<^verbatim>\<open>getResponseCode()\<close> returns -1 and raises nothing, so the except
  clause is not entered. The try block appends the status -1 with the content length the
  connection reports, whatever it is, and the bare URL: there is no error detail and no
  cause of the failure in the outcome, and the report prints the URL alone on its line.
\<close>

theorem C4_non_http_response_recorded_without_cause:
  "url_checker_try (\<lambda>u. Response (- 1) (- 1)) ''example.com/stream''
     = [(- 1, - 1, ''http://example.com/stream'')]
   \<and> url_checker_try (\<lambda>u. Response (- 1) 37) ''example.com/stream''
     = [(- 1, 37, ''http://example.com/stream'')]
   \<and> url_checker_try (\<lambda>u. Failure ''Invalid Http response'') ''example.com/stream''
     = [(- 1, - 1, ''[!] Error on http://example.com/stream: Invalid Http response'')]
   \<and> build_report [(- 1, 37, ''http://example.com/stream'')]
     = ''Status   Response Size   URL'' @ nl @ ''------   -------------   ---'' @ nl
       @ ''http://example.com/stream'' @ nl"
  by code_simp

lemma http_prefix_has_scheme:
  "prefix ''http://'' u \<or> prefix ''https://'' u \<Longrightarrow> spec_has_scheme u"
proof -
  have a: "spec_has_scheme (''http://'' @ r)" for r
    by (simp add: spec_has_scheme_def scheme_char_def is_alpha_def is_digit_def startswith_def)
  have b: "spec_has_scheme (''https://'' @ r)" for r
    by (simp add: spec_has_scheme_def scheme_char_def is_alpha_def is_digit_def startswith_def)
  assume "prefix ''http://'' u \<or> prefix ''https://'' u"
  then show ?thesis
    using a b unfolding prefix_def by blast
qed

text \<open>
  C8, as stated, fails: a URL with a scheme other than lower-case http or https is not probed
  unchanged. \<^verbatim>\<open>ftp://example.com/f\<close> and \<^verbatim>\<open>HTTP://example.com/\<close> have a scheme and
  get \<^verbatim>\<open>http://\<close> prepended.
\<close>

theorem C8_counterexample:
  "spec_has_scheme ''ftp://example.com/f''
   \<and> normalize_url ''ftp://example.com/f'' = ''http://ftp://example.com/f''
   \<and> spec_has_scheme ''HTTP://example.com/''
   \<and> normalize_url ''HTTP://example.com/'' = ''http://HTTP://example.com/''"
  by code_simp

text \<open>
  C8, amended. Before the request the URL is normalized: a URL that starts with
  \<^verbatim>\<open>http://\<close> or \<^verbatim>\<open>https://\<close> (lower case) is kept, and such a URL has a scheme;
  every other URL gets \<^verbatim>\<open>http://\<close> prepended. The normalized URL always starts with one
  of the two prefixes, and the probe asks the network about the normalized URL only.
\<close>

theorem C8_scheme_prefix_when_not_http:
  "normalize_url u =
     (if prefix ''http://'' u \<or> prefix ''https://'' u then u else ''http://'' @ u)
   \<and> (prefix ''http://'' u \<or> prefix ''https://'' u \<longrightarrow> spec_has_scheme u)
   \<and> (prefix ''http://'' (normalize_url u) \<or> prefix ''https://'' (normalize_url u))
   \<and> (net (normalize_url u) = net' (normalize_url u)
        \<longrightarrow> url_checker_try net u = url_checker_try net' u)"
proof (intro conjI impI)
  show "normalize_url u =
     (if prefix ''http://'' u \<or> prefix ''https://'' u then u else ''http://'' @ u)"
    by (rule normalize_url_cases)
  show "spec_has_scheme u" if "prefix ''http://'' u \<or> prefix ''https://'' u"
    using that by (rule http_prefix_has_scheme)
  show "prefix ''http://'' (normalize_url u) \<or> prefix ''https://'' (normalize_url u)"
    by (cases "prefix ''http://'' u \<or> prefix ''https://'' u")
       (simp_all only: normalize_url_cases if_True if_False prefixI simp_thms)
  show "url_checker_try net u = url_checker_try net' u"
    if "net (normalize_url u) = net' (normalize_url u)"
    using that by (simp add: url_checker_try_def)
qed

theorem C8_witness:
  "normalize_url ''example.com/c'' = ''http://example.com/c''
   \<and> normalize_url ''https://example.com/b'' = ''https://example.com/b''
   \<and> spec_has_scheme ''https://example.com/b''
   \<and> url_checker_try (\<lambda>u. Response 200 512) ''example.com/c''
       = url_checker_try (\<lambda>u. if u = ''http://example.com/c'' then Response 200 512
                              else Failure ''unreachable'') ''example.com/c''"
proof -
  let ?net' = "\<lambda>u. if u = ''http://example.com/c'' then Response 200 512
                              else Failure ''unreachable''"
  have p1: "\<not> (prefix ''http://'' ''example.com/c'' \<or> prefix ''https://'' ''example.com/c'')"
    by simp
  have p2: "prefix ''http://'' ''https://example.com/b'' \<or> prefix ''https://'' ''https://example.com/b''"
    by simp
  from C8_scheme_prefix_when_not_http [of "''example.com/c''", THEN conjunct1] p1
  have r1: "normalize_url ''example.com/c'' = ''http://example.com/c''"
    by (simp only: if_False append.simps)
  from C8_scheme_prefix_when_not_http [of "''https://example.com/b''", THEN conjunct1] p2
  have r2: "normalize_url ''https://example.com/b'' = ''https://example.com/b''"
    by (simp only: if_True)
  note r3 = C8_scheme_prefix_when_not_http [of "''https://example.com/b''",
      THEN conjunct2, THEN conjunct1, THEN mp, OF p2]
  have h: "(\<lambda>u. Response 200 512) (normalize_url ''example.com/c'')
             = ?net' (normalize_url ''example.com/c'')"
    by (simp add: r1)
  note r4 = C8_scheme_prefix_when_not_http [of "''example.com/c''" "\<lambda>u. Response 200 512" ?net',
      THEN conjunct2, THEN conjunct2, THEN conjunct2, THEN mp, OF h]
  from r1 r2 r3 r4 show ?thesis
    by (intro conjI)
qed

subsection \<open>The report\<close>

lemma sorted_results_descending:
  "sorted (map (\<lambda>item. - fst (snd item)) (sorted_results rs))"
  unfolding sorted_results_def by (rule sorted_sort_key)

lemma known_sizes_first:
  assumes i: "i < length rs" and j: "j < length rs"
    and ki: "0 \<le> fst (snd (sorted_results rs ! i))"
    and uj: "fst (snd (sorted_results rs ! j)) = - 1"
  shows "i < j"
proof (rule ccontr)
  assume "\<not> i < j"
  then have le: "j \<le> i" by simp
  let ?ks = "map (\<lambda>item. - fst (snd item)) (sorted_results rs)"
  have len: "length (sorted_results rs) = length rs"
    by (simp add: sorted_results_def)
  from i len have "i < length ?ks" by simp
  with sorted_results_descending [of rs] le have "?ks ! j \<le> ?ks ! i"
    by (rule sorted_nth_mono)
  with i j len have "fst (snd (sorted_results rs ! i)) \<le> fst (snd (sorted_results rs ! j))"
    by simp
  with ki uj show False by simp
qed

lemma drop_ljust_row:
  assumes "length a \<le> 8" and "length b \<le> 15"
  shows "drop 25 (format_row a b c) = c @ nl"
proof -
  from assms have "length (ljust 8 a @ '' '' @ ljust 15 b @ '' '') = 25"
    by (simp add: ljust_def)
  moreover have "format_row a b c = (ljust 8 a @ '' '' @ ljust 15 b @ '' '') @ c @ nl"
    by (simp add: format_row_def)
  ultimately show ?thesis
    by (simp only: drop_append) simp
qed

text \<open>
  C5. For every collection of outcomes the report lists them in descending order of the
  response size, so every outcome with a known size (0 or more) stands before every outcome
  with size -1; sizes 100, -1, 500, -1 come out as 500, 100, -1, -1. The sorted list is a
  permutation of the collection and every element gets one rendered entry, so none is
  dropped. The report is the header, the separator and the rendered entries. An outcome with
  status -1 is rendered as its text and a line feed; every other outcome as the status
  left-justified to 8, a space, the size (or \<^verbatim>\<open>N/A\<close> for -1) left-justified to 15, a
  space, and the URL, which therefore starts at column 25 when status and size fit their
  fields. The report is a function of the collection alone: the coordinator appends
  \<open>build_report\<close> of the results, so the same collection gives the same text.
\<close>

theorem C5_report_sorted_rendered_complete:
  "sorted (map (\<lambda>item. - fst (snd item)) (sorted_results rs))
   \<and> (i < length rs \<and> j < length rs \<and> 0 \<le> fst (snd (sorted_results rs ! i))
        \<and> fst (snd (sorted_results rs ! j)) = - 1 \<longrightarrow> i < j)
   \<and> map (\<lambda>item. fst (snd item))
        (sorted_results [(s1, 100, u1), (s2, - 1, u2), (s3, 500, u3), (s4, - 1, u4)])
      = [500, 100, - 1, - 1]
   \<and> mset (sorted_results rs) = mset rs
   \<and> length (map render_item (sorted_results rs)) = length rs
   \<and> build_report rs =
        format_row ''Status'' ''Response Size'' ''URL''
        @ format_row ''------'' ''-------------'' ''---''
        @ concat (map render_item (sorted_results rs))
   \<and> render_item (- 1, sz, detail) = detail @ nl
   \<and> (st \<noteq> - 1 \<longrightarrow>
        render_item (st, sz, u) =
          ljust 8 (str_int st) @ '' '' @ ljust 15 (if sz = - 1 then ''N/A'' else str_int sz)
          @ '' '' @ u @ nl)
   \<and> (st \<noteq> - 1 \<and> length (str_int st) \<le> 8 \<and> (sz = - 1 \<or> length (str_int sz) \<le> 15) \<longrightarrow>
        drop 25 (render_item (st, sz, u)) = u @ nl)
   \<and> (coord s = Reporting \<longrightarrow>
        (\<exists>s'. coord_step s = Some s'
          \<and> output_area s' = output_area s @ build_report (results s)
               @ (if stop_event s then nl @ ''[*] Process stopped by user.''
                  else nl @ ''[*] All checks complete.'')))"
proof (intro conjI impI)
  show "sorted (map (\<lambda>item. - fst (snd item)) (sorted_results rs))"
    by (rule sorted_results_descending)
  show "i < j" if "i < length rs \<and> j < length rs \<and> 0 \<le> fst (snd (sorted_results rs ! i))
        \<and> fst (snd (sorted_results rs ! j)) = - 1"
    using that known_sizes_first by blast
  show "map (\<lambda>item. fst (snd item))
        (sorted_results [(s1, 100, u1), (s2, - 1, u2), (s3, 500, u3), (s4, - 1, u4)])
      = [500, 100, - 1, - 1]"
    by (simp add: sorted_results_def)
  show "mset (sorted_results rs) = mset rs"
    by (simp add: sorted_results_def)
  show "length (map render_item (sorted_results rs)) = length rs"
    by (simp add: sorted_results_def)
  show "build_report rs =
        format_row ''Status'' ''Response Size'' ''URL''
        @ format_row ''------'' ''-------------'' ''---''
        @ concat (map render_item (sorted_results rs))"
    by (simp only: build_report_def)
  show "render_item (- 1, sz, detail) = detail @ nl"
    by (simp add: render_item_def)
  show "render_item (st, sz, u) =
          ljust 8 (str_int st) @ '' '' @ ljust 15 (if sz = - 1 then ''N/A'' else str_int sz)
          @ '' '' @ u @ nl" if "st \<noteq> - 1"
    using that by (simp add: render_item_def format_row_def)
  show "drop 25 (render_item (st, sz, u)) = u @ nl"
    if h: "st \<noteq> - 1 \<and> length (str_int st) \<le> 8 \<and> (sz = - 1 \<or> length (str_int sz) \<le> 15)"
  proof -
    from h have "length (if sz \<noteq> - 1 then str_int sz else ''N/A'') \<le> 15"
      by auto
    with h have "drop 25 (format_row (str_int st) (if sz \<noteq> - 1 then str_int sz else ''N/A'') u)
        = u @ nl"
      by (intro drop_ljust_row) simp_all
    with h show ?thesis
      by (simp add: render_item_def)
  qed
  show "\<exists>s'. coord_step s = Some s'
          \<and> output_area s' = output_area s @ build_report (results s)
               @ (if stop_event s then nl @ ''[*] Process stopped by user.''
                  else nl @ ''[*] All checks complete.'')" if "coord s = Reporting"
    using that by (simp add: coord_step_def)
qed

theorem C5_witness:
  "build_report [(200, 100, ''http://a''), (- 1, - 1, ''[!] Error on http://b: timed out''),
                 (301, 500, ''http://c''), (200, - 1, ''http://d'')]
     = ''Status   Response Size   URL\<newline>------   -------------   ---\<newline>301      500             http://c\<newline>200      100             http://a\<newline>[!] Error on http://b: timed out\<newline>200      N/A             http://d\<newline>''
   \<and> (1::nat) < 2
   \<and> drop 25 (render_item (200, - 1, ''http://d'')) = ''http://d\<newline>''"
proof -
  let ?rs = "[(200, 100, ''http://a''), (- 1, - 1, ''[!] Error on http://b: timed out''),
              (301, 500, ''http://c''), (200, - 1, ''http://d'')]"
  have srt: "sorted_results ?rs =
      [(301, 500, ''http://c''), (200, 100, ''http://a''),
       (- 1, - 1, ''[!] Error on http://b: timed out''), (200, - 1, ''http://d'')]"
    by code_simp
  have h2: "1 < length ?rs \<and> 2 < length ?rs \<and> 0 \<le> fst (snd (sorted_results ?rs ! 1))
        \<and> fst (snd (sorted_results ?rs ! 2)) = - 1"
    by (simp add: srt)
  note r2 = C5_report_sorted_rendered_complete [where rs = ?rs and i = 1 and j = 2,
      THEN conjunct2, THEN conjunct1, THEN mp, OF h2]
  have ev: "format_row ''Status'' ''Response Size'' ''URL''
        @ format_row ''------'' ''-------------'' ''---''
        @ concat (map render_item (sorted_results ?rs))
     = ''Status   Response Size   URL\<newline>------   -------------   ---\<newline>301      500             http://c\<newline>200      100             http://a\<newline>[!] Error on http://b: timed out\<newline>200      N/A             http://d\<newline>''"
    by code_simp
  note r6 = C5_report_sorted_rendered_complete [where rs = ?rs,
      THEN conjunct2, THEN conjunct2, THEN conjunct2, THEN conjunct2, THEN conjunct2,
      THEN conjunct1]
  from r6 ev have r1: "build_report ?rs
     = ''Status   Response Size   URL\<newline>------   -------------   ---\<newline>301      500             http://c\<newline>200      100             http://a\<newline>[!] Error on http://b: timed out\<newline>200      N/A             http://d\<newline>''"
    by (rule trans)
  have l: "length (str_int 200) \<le> 8"
    by code_simp
  have h9: "(200::int) \<noteq> - 1 \<and> length (str_int 200) \<le> 8
      \<and> ((- 1::int) = - 1 \<or> length (str_int (- 1)) \<le> 15)"
    using l by simp
  note r9 = C5_report_sorted_rendered_complete [where st = 200 and sz = "- 1" and u = "''http://d''",
      THEN conjunct2, THEN conjunct2, THEN conjunct2, THEN conjunct2, THEN conjunct2,
      THEN conjunct2, THEN conjunct2, THEN conjunct2, THEN conjunct1, THEN mp, OF h9]
  from r9 have r9': "drop 25 (render_item (200, - 1, ''http://d'')) = ''http://d\<newline>''"
    by simp
  from r1 r2 r9' show ?thesis
    by (intro conjI)
qed

subsection \<open>Validation of the inputs\<close>

text \<open>
  C7. A run whose domain is empty after stripping, or whose limit does not parse (as
  \<^verbatim>\<open>int()\<close> parses it, which no string that is not a number passes), ends at once: the
  output area holds the message alone (\<^verbatim>\<open>setText\<close> replaces the text), the status is
  \<^verbatim>\<open>Status: Error\<close>, no URL has been opened, nothing of the pool exists (the run ends
  before the queue, the results and the threads are created), and the outcome does not
  depend on the archive at all.
\<close>

theorem C7_validation_error_before_any_request:
  "strip domain_text = [] \<or> py_int (strip limit_text) = None \<longrightarrow>
     fetch_and_check_urls fetch domain_text limit_text thread_count =
       Inl \<lparr>end_output = (if strip domain_text = [] then ''Error: Please enter a domain name.''
                          else ''Error: Invalid limit. Please enter a number.''),
            end_status = ''Status: Error'', archive_requests = []\<rparr>
     \<and> fetch_and_check_urls fetch domain_text limit_text thread_count =
         fetch_and_check_urls fetch' domain_text limit_text thread_count"
  by (auto simp: fetch_and_check_urls_def Let_def)

theorem C7_witness:
  "fetch_and_check_urls (\<lambda>u. Inr [''http://example.com/b'']) ''example.com'' ''abc'' 5 =
     Inl \<lparr>end_output = ''Error: Invalid limit. Please enter a number.'',
          end_status = ''Status: Error'', archive_requests = []\<rparr>
   \<and> fetch_and_check_urls (\<lambda>u. Inr [''http://example.com/b'']) ''   '' ''10000'' 5 =
     Inl \<lparr>end_output = ''Error: Please enter a domain name.'',
          end_status = ''Status: Error'', archive_requests = []\<rparr>"
proof -
  let ?fetch = "\<lambda>u::string. (Inr [''http://example.com/b''] :: string + string list)"
  have d1: "strip ''example.com'' \<noteq> []" and l1: "py_int (strip ''abc'') = None"
    and d2: "strip ''   '' = []"
    by code_simp+
  from l1 have h1: "strip ''example.com'' = [] \<or> py_int (strip ''abc'') = None"
    by (rule disjI2)
  from d2 have h2: "strip ''   '' = [] \<or> py_int (strip ''10000'') = None"
    by (rule disjI1)
  note r1 = C7_validation_error_before_any_request
    [of "''example.com''" "''abc''" ?fetch 5 ?fetch, THEN mp, OF h1, THEN conjunct1]
  note r2 = C7_validation_error_before_any_request
    [of "''   ''" "''10000''" ?fetch 5 ?fetch, THEN mp, OF h2, THEN conjunct1]
  from r1 d1 have a: "fetch_and_check_urls ?fetch ''example.com'' ''abc'' 5 =
     Inl \<lparr>end_output = ''Error: Invalid limit. Please enter a number.'',
          end_status = ''Status: Error'', archive_requests = []\<rparr>"
    by (simp only: if_False)
  from r2 d2 have b: "fetch_and_check_urls ?fetch ''   '' ''10000'' 5 =
     Inl \<lparr>end_output = ''Error: Please enter a domain name.'',
          end_status = ''Status: Error'', archive_requests = []\<rparr>"
    by (simp only: if_True simp_thms)
  from a b show ?thesis
    by (intro conjI)
qed

lemma strip_no_outer_space:
  assumes "s \<noteq> []" and "\<not> is_space (hd s)" and "\<not> is_space (last s)"
  shows "strip s = s"
proof -
  from assms(1,2) have a: "dropWhile is_space s = s"
    by (cases s) simp_all
  from assms(1,3) have b: "dropWhile is_space (rev s) = rev s"
    by (cases "rev s") (simp_all add: hd_rev [symmetric])
  show ?thesis
    by (simp add: strip_def a b)
qed

lemma digit_not_space: "is_digit c \<Longrightarrow> \<not> is_space c"
  by (auto simp: is_digit_def is_space_def Let_def)

lemma digit_not_sign: "is_digit c \<Longrightarrow> c \<noteq> CHR ''-'' \<and> c \<noteq> CHR ''+''"
  by (auto simp: is_digit_def)

lemma py_int_digits:
  assumes ne: "ds \<noteq> []" and dg: "list_all is_digit ds"
  shows "py_int ds = Some (int (digits_val ds))"
    and "py_int (CHR ''-'' # ds) = Some (- int (digits_val ds))"
proof -
  from ne dg have h: "is_digit (hd ds)" and l: "is_digit (last ds)"
    by (auto simp: list_all_iff)
  from ne h l have s1: "strip ds = ds"
    by (intro strip_no_outer_space digit_not_space)
  have "\<not> is_space (CHR ''-'')"
    by (simp add: is_space_def)
  with ne l have s2: "strip (CHR ''-'' # ds) = CHR ''-'' # ds"
    by (intro strip_no_outer_space) (simp_all add: digit_not_space)
  from ne dg digit_not_sign [OF h] show "py_int ds = Some (int (digits_val ds))"
    by (simp add: py_int_def s1)
  from ne dg show "py_int (CHR ''-'' # ds) = Some (- int (digits_val ds))"
    by (simp add: py_int_def s2)
qed

text \<open>
  C10. With a non-empty domain, the run ends with the message about the limit exactly when
  the stripped limit does not parse as an integer. When it parses to \<open>n\<close>, whatever \<open>n\<close>
  is, the one URL the run opens is the query URL with the decimal text of \<open>n\<close> after
  \<^verbatim>\<open>&limit=\<close>, and a pool is only started on the lines that this URL returned. Every
  non-empty string of digits parses, and so does every such string after a minus sign: zero
  and negative limits are accepted.
\<close>

theorem C10_limit_accepted_iff_integer_and_embedded:
  "(strip domain_text \<noteq> [] \<longrightarrow>
      (py_int (strip limit_text) = None \<longleftrightarrow>
         fetch_and_check_urls fetch domain_text limit_text thread_count =
           Inl \<lparr>end_output = ''Error: Invalid limit. Please enter a number.'',
                end_status = ''Status: Error'', archive_requests = []\<rparr>)
    \<and> (py_int (strip limit_text) = Some n \<longrightarrow>
         (\<forall>e. fetch_and_check_urls fetch domain_text limit_text thread_count = Inl e
              \<longrightarrow> archive_requests e = [target_url (strip domain_text) n])
       \<and> (\<forall>s. fetch_and_check_urls fetch domain_text limit_text thread_count = Inr s
              \<longrightarrow> (\<exists>lines. fetch (target_url (strip domain_text) n) = Inr lines
                      \<and> lines \<noteq> [] \<and> queue s = filtered_urls lines))))
   \<and> target_url domain n =
        ''http://web.archive.org/cdx/search/cdx?url='' @ quote domain
        @ ''&matchType=domain&limit='' @ str_int n @ ''&fl=original&collapse=urlkey''
   \<and> (ds \<noteq> [] \<and> list_all is_digit ds \<longrightarrow>
        py_int ds = Some (int (digits_val ds))
        \<and> py_int (CHR ''-'' # ds) = Some (- int (digits_val ds)))
   \<and> py_int ''0'' = Some 0 \<and> py_int ''-5'' = Some (- 5)"
proof (intro conjI impI allI)
  assume d: "strip domain_text \<noteq> []"
  show "py_int (strip limit_text) = None \<longleftrightarrow>
         fetch_and_check_urls fetch domain_text limit_text thread_count =
           Inl \<lparr>end_output = ''Error: Invalid limit. Please enter a number.'',
                end_status = ''Status: Error'', archive_requests = []\<rparr>"
    using d
    by (auto simp: fetch_and_check_urls_def Let_def fetch_error_message_def
          split: option.splits sum.splits)
next
  fix e
  assume "strip domain_text \<noteq> []" "py_int (strip limit_text) = Some n"
    "fetch_and_check_urls fetch domain_text limit_text thread_count = Inl e"
  then show "archive_requests e = [target_url (strip domain_text) n]"
    by (auto simp: fetch_and_check_urls_def Let_def split: sum.splits if_splits)
next
  fix s
  assume "strip domain_text \<noteq> []" "py_int (strip limit_text) = Some n"
    "fetch_and_check_urls fetch domain_text limit_text thread_count = Inr s"
  then show "\<exists>lines. fetch (target_url (strip domain_text) n) = Inr lines
                      \<and> lines \<noteq> [] \<and> queue s = filtered_urls lines"
    by (auto simp: fetch_and_check_urls_def Let_def start_pool_def split: sum.splits if_splits)
next
  show "target_url domain n =
        ''http://web.archive.org/cdx/search/cdx?url='' @ quote domain
        @ ''&matchType=domain&limit='' @ str_int n @ ''&fl=original&collapse=urlkey''"
    by (simp add: target_url_def)
next
  assume "ds \<noteq> [] \<and> list_all is_digit ds"
  then show "py_int ds = Some (int (digits_val ds))"
    using py_int_digits(1) by blast
next
  assume "ds \<noteq> [] \<and> list_all is_digit ds"
  then show "py_int (CHR ''-'' # ds) = Some (- int (digits_val ds))"
    using py_int_digits(2) by blast
next
  show "py_int ''0'' = Some 0" by code_simp
  show "py_int ''-5'' = Some (- 5)" by code_simp
qed

theorem C10_witness:
  "py_int (strip '' -5 '') = Some (- 5)
   \<and> target_url ''example.com'' (- 5) =
       ''http://web.archive.org/cdx/search/cdx?url=example.com&matchType=domain&limit=-5&fl=original&collapse=urlkey''
   \<and> (\<exists>s. fetch_and_check_urls
         (\<lambda>u. if u = ''http://web.archive.org/cdx/search/cdx?url=example.com&matchType=domain&limit=-5&fl=original&collapse=urlkey''
              then Inr [''http://example.com/b''] else Inl ''unexpected query'')
         ''example.com'' '' -5 '' 5 = Inr s
        \<and> queue s = [''http://example.com/b''])
   \<and> fetch_and_check_urls
         (\<lambda>u. if u = ''http://web.archive.org/cdx/search/cdx?url=example.com&matchType=domain&limit=-5&fl=original&collapse=urlkey''
              then Inr [''http://example.com/b''] else Inl ''unexpected query'')
         ''example.com'' ''abc'' 5 =
       Inl \<lparr>end_output = ''Error: Invalid limit. Please enter a number.'',
            end_status = ''Status: Error'', archive_requests = []\<rparr>"
proof -
  let ?q = "''http://web.archive.org/cdx/search/cdx?url=example.com&matchType=domain&limit=-5&fl=original&collapse=urlkey''"
  let ?fetch = "\<lambda>u. if u = ?q
              then Inr [''http://example.com/b''] else (Inl ''unexpected query'' :: string + string list)"
  have d: "strip ''example.com'' \<noteq> []"
    and sd: "strip ''example.com'' = ''example.com''"
    and p1: "py_int (strip '' -5 '') = Some (- 5)"
    and p2: "py_int (strip ''abc'') = None"
    and tq: "target_url ''example.com'' (- 5) = ?q"
    and fl: "filtered_urls [''http://example.com/b''] = [''http://example.com/b'']"
    by code_simp+
  from C10_limit_accepted_iff_integer_and_embedded
    [where domain_text = "''example.com''" and fetch = ?fetch and thread_count = 5
       and limit_text = "''abc''", THEN conjunct1, THEN mp, OF d, THEN conjunct1] p2
  have r4: "fetch_and_check_urls ?fetch ''example.com'' ''abc'' 5 =
       Inl \<lparr>end_output = ''Error: Invalid limit. Please enter a number.'',
            end_status = ''Status: Error'', archive_requests = []\<rparr>"
    by (rule iffD1)
  have "case fetch_and_check_urls ?fetch ''example.com'' '' -5 '' 5 of
          Inl e \<Rightarrow> False | Inr s \<Rightarrow> True"
    by code_simp
  then obtain s where run: "fetch_and_check_urls ?fetch ''example.com'' '' -5 '' 5 = Inr s"
    by (auto split: sum.splits)
  from C10_limit_accepted_iff_integer_and_embedded
    [where domain_text = "''example.com''" and fetch = ?fetch and thread_count = 5
       and limit_text = "'' -5 ''" and n = "- 5", THEN conjunct1, THEN mp, OF d,
      THEN conjunct2, THEN mp, OF p1, THEN conjunct2, THEN spec, THEN mp, OF run]
  obtain lines where "?fetch (target_url (strip ''example.com'') (- 5)) = Inr lines"
    and q: "queue s = filtered_urls lines"
    by blast
  then have "lines = [''http://example.com/b'']"
    by (simp add: sd tq)
  with q fl have "queue s = [''http://example.com/b'']"
    by (simp only:)
  with run have r3: "\<exists>s. fetch_and_check_urls ?fetch ''example.com'' '' -5 '' 5 = Inr s
        \<and> queue s = [''http://example.com/b'']"
    by blast
  from p1 tq r3 r4 show ?thesis
    by (intro conjI)
qed

subsection \<open>How a run ends\<close>







subsection \<open>A pool on an empty queue\<close>

lemma empty_inv_worker:
  assumes "empty_inv s" and "i < length (workers s)"
  shows "workers s ! i = LoopHead \<or> workers s ! i = Exited"
  using assms by (auto simp: empty_inv_def list_all_length)

lemma worker_step_empty:
  assumes e: "empty_inv s" and st: "worker_step net i s = Some s'"
  shows "workers s ! i = LoopHead \<and> s' = s\<lparr>workers := (workers s)[i := Exited]\<rparr>"
proof -
  from st have i: "i < length (workers s)"
    by (auto simp: worker_step_def split: if_splits)
  from e have q: "queue s = []"
    by (simp add: empty_inv_def)
  from empty_inv_worker [OF e i] st i q show ?thesis
    by (auto simp: worker_step_def)
qed

lemma act_empty_inv:
  assumes e: "empty_inv s" and st: "act net a s = Some s'"
  shows "empty_inv s'"
proof (cases a)
  case (Worker i)
  with st have w: "worker_step net i s = Some s'"
    by (simp add: act_def)
  from worker_step_empty [OF e w] e show ?thesis
    by (auto simp: empty_inv_def list_all_iff dest: set_update_cases)
next
  case Coordinator
  with e st show ?thesis
    by (cases "coord s") (auto simp: act_def coord_step_def empty_inv_def split: if_splits)
next
  case StopClick
  with e st show ?thesis
    by (auto simp: act_def stop_click_def empty_inv_def split: if_splits)
qed

lemma run_schedule_empty_inv:
  "empty_inv s \<Longrightarrow> run_schedule net sched s = Some s' \<Longrightarrow> empty_inv s'"
proof (induction sched arbitrary: s)
  case Nil
  then show ?case by simp
next
  case (Cons a sched)
  from Cons.prems(2) obtain t where t: "act net a s = Some t"
    and r: "run_schedule net sched t = Some s'"
    by (auto split: option.splits)
  from act_empty_inv [OF Cons.prems(1) t] r show ?case
    by (rule Cons.IH)
qed

lemma act_quiet_inv:
  assumes e: "empty_inv s" and q: "quiet_inv out0 s" and ns: "a \<noteq> StopClick"
    and st: "act net a s = Some s'"
  shows "quiet_inv out0 s'"
proof (cases a)
  case (Worker i)
  with st have w: "worker_step net i s = Some s'"
    by (simp add: act_def)
  from worker_step_empty [OF e w] q show ?thesis
    by (auto simp: quiet_inv_def)
next
  case Coordinator
  from e have r: "results s = []"
    by (simp add: empty_inv_def)
  from Coordinator q st r show ?thesis
    by (cases "coord s") (auto simp: act_def coord_step_def quiet_inv_def split: if_splits)
next
  case StopClick
  with ns show ?thesis by simp
qed

lemma act_steps_left:
  assumes e: "empty_inv s" and ns: "a \<noteq> StopClick" and st: "act net a s = Some s'"
  shows "steps_left s = Suc (steps_left s')"
proof (cases a)
  case (Worker i)
  with st have w: "worker_step net i s = Some s'"
    by (simp add: act_def)
  then have i: "i < length (workers s)"
    by (auto simp: worker_step_def split: if_splits)
  from worker_step_empty [OF e w] sum_list_map_update [OF i, of at_loop_head Exited]
  show ?thesis
    by (auto simp: steps_left_def)
next
  case Coordinator
  with st show ?thesis
    by (cases "coord s") (auto simp: act_def coord_step_def steps_left_def split: if_splits)
next
  case StopClick
  with ns show ?thesis by simp
qed

lemma run_schedule_quiet:
  "empty_inv s \<Longrightarrow> quiet_inv out0 s \<Longrightarrow> StopClick \<notin> set sched \<Longrightarrow>
   run_schedule net sched s = Some s' \<Longrightarrow>
     quiet_inv out0 s' \<and> steps_left s = length sched + steps_left s'"
proof (induction sched arbitrary: s)
  case Nil
  then show ?case by simp
next
  case (Cons a sched)
  from Cons.prems(4) obtain t where t: "act net a s = Some t"
    and r: "run_schedule net sched t = Some s'"
    by (auto split: option.splits)
  from Cons.prems(3) have ns: "a \<noteq> StopClick" and nss: "StopClick \<notin> set sched"
    by auto
  from Cons.IH [OF act_empty_inv [OF Cons.prems(1) t]
      act_quiet_inv [OF Cons.prems(1,2) ns t] nss r]
    act_steps_left [OF Cons.prems(1) ns t]
  show ?case by simp
qed

lemma start_pool_empty:
  "empty_inv (start_pool out [] k) \<and> quiet_inv (output_area (start_pool out [] k)) (start_pool out [] k)
   \<and> steps_left (start_pool out [] k) = k + 2"
  by (simp add: empty_inv_def quiet_inv_def steps_left_def start_pool_def list_all_iff
        sum_list_replicate)

lemma build_report_Nil:
  "build_report [] = ''Status   Response Size   URL'' @ nl @ ''------   -------------   ---'' @ nl"
  by code_simp

lemma coordinator_never_blocked:
  assumes "empty_inv s" and "coord s \<noteq> Done"
  shows "\<exists>s1. act net Coordinator s = Some s1"
  using assms by (cases "coord s") (auto simp: act_def coord_step_def empty_inv_def)

lemma worker_exits_at_once:
  assumes e: "empty_inv s" and i: "i < length (workers s)" and w: "workers s ! i = LoopHead"
  shows "\<exists>s1. worker_step net i s = Some s1 \<and> workers s1 ! i = Exited"
  using assms by (auto simp: worker_step_def empty_inv_def)

lemma join_and_report_at_once:
  assumes e: "empty_inv s" and j: "coord s = Joining"
  shows "\<exists>s2. run_schedule net [Coordinator, Coordinator] s = Some s2 \<and> coord s2 = Done"
  using assms by (auto simp: act_def coord_step_def empty_inv_def)

text \<open>
  C9. When the archive returns lines and the filter removes all of them, the run does not
  end in an error: the pool is started with an empty queue, no unfinished task and all
  \<open>thread_count\<close> workers before their first test. \<^verbatim>\<open>q.join()\<close> returns at once (the
  coordinator alone can finish in two steps, and in every reachable state it can move until
  it is done), every worker that moves finds the queue empty and leaves its loop on that
  first step, and nothing is ever appended to the results. Without a stop request no
  execution is longer than \<open>thread_count + 2\<close> steps, and when the coordinator is done the
  status is \<^verbatim>\<open>Status: Complete\<close> and the output area has gained exactly the header
  line, the separator line and the closing line, character by character as the code formats
  them: a report with no data row.
\<close>

theorem C9_fully_filtered_list_completes_with_empty_report:
  "strip d \<noteq> [] \<and> py_int (strip l) = Some n \<and> fetch (target_url (strip d) n) = Inr lines
     \<and> lines \<noteq> [] \<and> filtered_urls lines = [] \<longrightarrow>
   (\<exists>s0. fetch_and_check_urls fetch d l k = Inr s0
      \<and> queue s0 = [] \<and> unfinished_tasks s0 = 0 \<and> workers s0 = replicate k LoopHead
      \<and> coord s0 = Joining
      \<and> (\<exists>s2. run_schedule net [Coordinator, Coordinator] s0 = Some s2 \<and> coord s2 = Done)
      \<and> (\<forall>sched s. run_schedule net sched s0 = Some s \<longrightarrow>
            results s = []
            \<and> (\<forall>i. i < k \<and> workers s ! i = LoopHead \<longrightarrow>
                  (\<exists>s1. worker_step net i s = Some s1 \<and> workers s1 ! i = Exited))
            \<and> (coord s \<noteq> Done \<longrightarrow> (\<exists>s1. act net Coordinator s = Some s1))
            \<and> (StopClick \<notin> set sched \<longrightarrow>
                  length sched \<le> k + 2
                  \<and> (coord s = Done \<longrightarrow>
                       status_label s = ''Status: Complete''
                       \<and> output_area s =
                           output_area s0 @ ''Status   Response Size   URL'' @ nl @ ''------   -------------   ---'' @ nl
                           @ nl @ ''[*] All checks complete.''))))"
proof
  assume h: "strip d \<noteq> [] \<and> py_int (strip l) = Some n
     \<and> fetch (target_url (strip d) n) = Inr lines \<and> lines \<noteq> [] \<and> filtered_urls lines = []"
  define out where "out = ''[*] Preparing to fetch URLs for: '' @ strip d @ nl
                     @ ''[*] Contacting: '' @ target_url (strip d) n @ nl
                     @ ''[*] Found '' @ str_nat (length lines) @ '' total URLs.'' @ nl"
  define s0 where "s0 = start_pool out [] k"
  from h have run: "fetch_and_check_urls fetch d l k = Inr s0"
    by (simp add: fetch_and_check_urls_def Let_def s0_def out_def)
  have e0: "empty_inv s0" and q0: "quiet_inv (output_area s0) s0" and m0: "steps_left s0 = k + 2"
    using start_pool_empty [of out k] by (simp_all add: s0_def)
  have init: "queue s0 = [] \<and> unfinished_tasks s0 = 0 \<and> workers s0 = replicate k LoopHead
      \<and> coord s0 = Joining"
    by (simp add: s0_def start_pool_def)
  have first: "\<exists>s2. run_schedule net [Coordinator, Coordinator] s0 = Some s2 \<and> coord s2 = Done"
    using e0 init by (intro join_and_report_at_once) simp_all
  have every: "results s = []
            \<and> (\<forall>i. i < k \<and> workers s ! i = LoopHead \<longrightarrow>
                  (\<exists>s1. worker_step net i s = Some s1 \<and> workers s1 ! i = Exited))
            \<and> (coord s \<noteq> Done \<longrightarrow> (\<exists>s1. act net Coordinator s = Some s1))
            \<and> (StopClick \<notin> set sched \<longrightarrow>
                  length sched \<le> k + 2
                  \<and> (coord s = Done \<longrightarrow>
                       status_label s = ''Status: Complete''
                       \<and> output_area s =
                           output_area s0 @ ''Status   Response Size   URL'' @ nl @ ''------   -------------   ---'' @ nl
                           @ nl @ ''[*] All checks complete.''))"
    if r: "run_schedule net sched s0 = Some s" for sched s
  proof (intro conjI allI impI)
    from e0 r have e: "empty_inv s"
      by (rule run_schedule_empty_inv)
    from e show "results s = []"
      by (simp add: empty_inv_def)
    from run_schedule_keeps_totals [OF r] init have len: "length (workers s) = k"
      by simp
    show "\<exists>s1. worker_step net i s = Some s1 \<and> workers s1 ! i = Exited"
      if "i < k \<and> workers s ! i = LoopHead" for i
      using e that len by (intro worker_exits_at_once) simp_all
    show "\<exists>s1. act net Coordinator s = Some s1" if "coord s \<noteq> Done"
      using e that by (rule coordinator_never_blocked)
    assume ns: "StopClick \<notin> set sched"
    from run_schedule_quiet [OF e0 q0 ns r] m0
    have q: "quiet_inv (output_area s0) s" and m: "k + 2 = length sched + steps_left s"
      by simp_all
    from m show "length sched \<le> k + 2"
      by linarith
    assume "coord s = Done"
    with q show "status_label s = ''Status: Complete''"
      and "output_area s =
                           output_area s0 @ ''Status   Response Size   URL'' @ nl @ ''------   -------------   ---'' @ nl
                           @ nl @ ''[*] All checks complete.''"
      by (simp_all add: quiet_inv_def build_report_Nil)
  qed
  have all: "\<forall>sched s. run_schedule net sched s0 = Some s \<longrightarrow>
            results s = []
            \<and> (\<forall>i. i < k \<and> workers s ! i = LoopHead \<longrightarrow>
                  (\<exists>s1. worker_step net i s = Some s1 \<and> workers s1 ! i = Exited))
            \<and> (coord s \<noteq> Done \<longrightarrow> (\<exists>s1. act net Coordinator s = Some s1))
            \<and> (StopClick \<notin> set sched \<longrightarrow>
                  length sched \<le> k + 2
                  \<and> (coord s = Done \<longrightarrow>
                       status_label s = ''Status: Complete''
                       \<and> output_area s =
                           output_area s0 @ ''Status   Response Size   URL'' @ nl @ ''------   -------------   ---'' @ nl
                           @ nl @ ''[*] All checks complete.''))"
    by (intro allI impI) (rule every)
  from init have i1: "queue s0 = []" and i2: "unfinished_tasks s0 = 0"
    and i3: "workers s0 = replicate k LoopHead" and i4: "coord s0 = Joining"
    by simp_all
  show "\<exists>s0. fetch_and_check_urls fetch d l k = Inr s0
      \<and> queue s0 = [] \<and> unfinished_tasks s0 = 0 \<and> workers s0 = replicate k LoopHead
      \<and> coord s0 = Joining
      \<and> (\<exists>s2. run_schedule net [Coordinator, Coordinator] s0 = Some s2 \<and> coord s2 = Done)
      \<and> (\<forall>sched s. run_schedule net sched s0 = Some s \<longrightarrow>
            results s = []
            \<and> (\<forall>i. i < k \<and> workers s ! i = LoopHead \<longrightarrow>
                  (\<exists>s1. worker_step net i s = Some s1 \<and> workers s1 ! i = Exited))
            \<and> (coord s \<noteq> Done \<longrightarrow> (\<exists>s1. act net Coordinator s = Some s1))
            \<and> (StopClick \<notin> set sched \<longrightarrow>
                  length sched \<le> k + 2
                  \<and> (coord s = Done \<longrightarrow>
                       status_label s = ''Status: Complete''
                       \<and> output_area s =
                           output_area s0 @ ''Status   Response Size   URL'' @ nl @ ''------   -------------   ---'' @ nl
                           @ nl @ ''[*] All checks complete.'')))"
    (is "\<exists>x. ?P x")
  proof (rule exI)
    from run i1 i2 i3 i4 first all show "?P s0"
      by (intro conjI)
  qed
qed

theorem C9_witness:
  "\<exists>s0 s. fetch_and_check_urls (\<lambda>u. Inr [''http://example.com/a.png'', ''example.com/c.css''])
             ''example.com'' ''10'' 2 = Inr s0
     \<and> run_schedule (\<lambda>u. Response 200 0) [Worker 0, Coordinator, Worker 1, Coordinator] s0
         = Some s
     \<and> coord s = Done \<and> results s = [] \<and> status_label s = ''Status: Complete''
     \<and> output_area s =
         output_area s0 @ ''Status   Response Size   URL'' @ nl @ ''------   -------------   ---'' @ nl @ nl @ ''[*] All checks complete.''
     \<and> output_area s =
         ''[*] Preparing to fetch URLs for: example.com'' @ nl
         @ ''[*] Contacting: http://web.archive.org/cdx/search/cdx?url=example.com''
         @ ''&matchType=domain&limit=10&fl=original&collapse=urlkey'' @ nl
         @ ''[*] Found 2 total URLs.'' @ nl
         @ ''[*] 0 URLs remain after filtering. Starting HTTP checks with 2 threads...''
         @ nl @ nl
         @ ''Status   Response Size   URL'' @ nl
         @ ''------   -------------   ---'' @ nl
         @ nl @ ''[*] All checks complete.''"
proof -
  let ?fetch = "\<lambda>u::string. (Inr [''http://example.com/a.png'', ''example.com/c.css'']
                  :: string + string list)"
  let ?net = "\<lambda>u::string. Response 200 0"
  let ?sched = "[Worker 0, Coordinator, Worker 1, Coordinator]"
  have d: "strip ''example.com'' \<noteq> []" and l: "py_int (strip ''10'') = Some 10"
    and f: "filtered_urls [''http://example.com/a.png'', ''example.com/c.css''] = []"
    by code_simp+
  have h: "strip ''example.com'' \<noteq> [] \<and> py_int (strip ''10'') = Some 10
     \<and> ?fetch (target_url (strip ''example.com'') 10)
         = Inr [''http://example.com/a.png'', ''example.com/c.css'']
     \<and> [''http://example.com/a.png'', ''example.com/c.css''] \<noteq> []
     \<and> filtered_urls [''http://example.com/a.png'', ''example.com/c.css''] = []"
    using d l f by simp
  from C9_fully_filtered_list_completes_with_empty_report
    [where fetch = ?fetch and d = "''example.com''" and l = "''10''" and k = 2 and n = 10
       and lines = "[''http://example.com/a.png'', ''example.com/c.css'']" and net = ?net,
     THEN mp, OF h]
  obtain s0 where run: "fetch_and_check_urls ?fetch ''example.com'' ''10'' 2 = Inr s0"
    and every: "\<forall>sched s. run_schedule ?net sched s0 = Some s \<longrightarrow>
            results s = []
            \<and> (\<forall>i. i < 2 \<and> workers s ! i = LoopHead \<longrightarrow>
                  (\<exists>s1. worker_step ?net i s = Some s1 \<and> workers s1 ! i = Exited))
            \<and> (coord s \<noteq> Done \<longrightarrow> (\<exists>s1. act ?net Coordinator s = Some s1))
            \<and> (StopClick \<notin> set sched \<longrightarrow>
                  length sched \<le> 2 + 2
                  \<and> (coord s = Done \<longrightarrow>
                       status_label s = ''Status: Complete''
                       \<and> output_area s =
                           output_area s0 @ ''Status   Response Size   URL'' @ nl @ ''------   -------------   ---'' @ nl
                           @ nl @ ''[*] All checks complete.''))"
    by (elim exE conjE)
  have "case fetch_and_check_urls ?fetch ''example.com'' ''10'' 2 of
          Inl e \<Rightarrow> False
        | Inr t \<Rightarrow> (case run_schedule ?net ?sched t of
                       None \<Rightarrow> False | Some s \<Rightarrow> coord s = Done)"
    by code_simp
  with run have "case run_schedule ?net ?sched s0 of None \<Rightarrow> False | Some s \<Rightarrow> coord s = Done"
    by (simp only: sum.case)
  then obtain s where r: "run_schedule ?net ?sched s0 = Some s" and c: "coord s = Done"
    by (auto split: option.splits)
  have "case fetch_and_check_urls ?fetch ''example.com'' ''10'' 2 of
          Inl e \<Rightarrow> False
        | Inr t \<Rightarrow> output_area t =
            ''[*] Preparing to fetch URLs for: example.com'' @ nl
            @ ''[*] Contacting: http://web.archive.org/cdx/search/cdx?url=example.com''
            @ ''&matchType=domain&limit=10&fl=original&collapse=urlkey'' @ nl
            @ ''[*] Found 2 total URLs.'' @ nl
            @ ''[*] 0 URLs remain after filtering. Starting HTTP checks with 2 threads...''
            @ nl @ nl"
    by code_simp
  with run have o0: "output_area s0 =
            ''[*] Preparing to fetch URLs for: example.com'' @ nl
            @ ''[*] Contacting: http://web.archive.org/cdx/search/cdx?url=example.com''
            @ ''&matchType=domain&limit=10&fl=original&collapse=urlkey'' @ nl
            @ ''[*] Found 2 total URLs.'' @ nl
            @ ''[*] 0 URLs remain after filtering. Starting HTTP checks with 2 threads...''
            @ nl @ nl"
    by (simp only: sum.case)
  have ns: "StopClick \<notin> set ?sched"
    by simp
  note ev = every [THEN spec, THEN spec, THEN mp, OF r]
  note e1 = ev [THEN conjunct1]
  note e2 = ev [THEN conjunct2, THEN conjunct2, THEN conjunct2, THEN mp, OF ns,
      THEN conjunct2, THEN mp, OF c]
  note e3 = e2 [THEN conjunct1]
  note e4 = e2 [THEN conjunct2]
  show ?thesis
  proof (intro exI conjI)
    show "fetch_and_check_urls ?fetch ''example.com'' ''10'' 2 = Inr s0" by (rule run)
    show "run_schedule ?net ?sched s0 = Some s" by (rule r)
    show "coord s = Done" by (rule c)
    show "results s = []" by (rule e1)
    show "status_label s = ''Status: Complete''" by (rule e3)
    show "output_area s =
         output_area s0 @ ''Status   Response Size   URL'' @ nl @ ''------   -------------   ---'' @ nl @ nl @ ''[*] All checks complete.''"
      by (rule e4)
    from e4 show "output_area s =
         ''[*] Preparing to fetch URLs for: example.com'' @ nl
         @ ''[*] Contacting: http://web.archive.org/cdx/search/cdx?url=example.com''
         @ ''&matchType=domain&limit=10&fl=original&collapse=urlkey'' @ nl
         @ ''[*] Found 2 total URLs.'' @ nl
         @ ''[*] 0 URLs remain after filtering. Starting HTTP checks with 2 threads...''
         @ nl @ nl
         @ ''Status   Response Size   URL'' @ nl
         @ ''------   -------------   ---'' @ nl
         @ nl @ ''[*] All checks complete.''"
      by (simp only: o0 append_assoc)
  qed
qed

subsection \<open>A stop request while targets are queued\<close>

text \<open>
  Once the stop event is set with targets still queued and no worker about to take one,
  this stays so in every execution: each worker leaves its loop at the test of the event,
  the queue keeps its targets, the counter of unfinished tasks stays positive, and the
  coordinator stays in \<^verbatim>\<open>q.join()\<close>.
\<close>

lemma worker_step_stop_pending:
  assumes p: "stop_pending s" and st: "worker_step net i s = Some s'"
  shows "stop_pending s'"
proof -
  from st have i: "i < length (workers s)"
    by (auto simp: worker_step_def split: if_splits)
  from i have "workers s ! i \<in> set (workers s)"
    by (rule nth_mem)
  with p have ng: "workers s ! i \<noteq> Getting"
    by (auto simp: stop_pending_def)
  from p st i ng show ?thesis
    by (cases "workers s ! i")
       (auto simp: worker_step_def stop_pending_def split: if_splits dest: set_update_cases)
qed

lemma act_stop_pending:
  assumes inv: "pool_inv net every s" and p: "stop_pending s" and st: "act net a s = Some s'"
  shows "stop_pending s'"
proof (cases a)
  case (Worker i)
  with p st show ?thesis
    by (auto simp: act_def intro: worker_step_stop_pending)
next
  case Coordinator
  from inv p have "unfinished_tasks s \<noteq> 0"
    by (auto simp: pool_inv_def stop_pending_def)
  with Coordinator p st show ?thesis
    by (auto simp: act_def coord_step_def stop_pending_def)
next
  case StopClick
  with p st show ?thesis
    by (auto simp: act_def stop_click_def stop_pending_def)
qed

lemma join_never_returns_after_stop:
  "pool_inv net every s \<Longrightarrow> stop_pending s \<Longrightarrow> run_schedule net sched s = Some s' \<Longrightarrow>
     stop_pending s'"
proof (induction sched arbitrary: s)
  case Nil
  then show ?case by simp
next
  case (Cons a sched)
  from Cons.prems(3) obtain t where t: "act net a s = Some t"
    and r: "run_schedule net sched t = Some s'"
    by (auto split: option.splits)
  from act_inv [OF Cons.prems(1) t] act_stop_pending [OF Cons.prems(1,2) t] r show ?case
    by (rule Cons.IH)
qed

lemma all_exited_no_worker_step:
  "list_all (\<lambda>w. w = Exited) (workers s) \<Longrightarrow> worker_step net i s = None"
  by (auto simp: worker_step_def list_all_length)

text \<open>
  C1. The code at the claim's input: two targets, one worker, the stop request arriving
  after the first target has been taken (K = 1, N = 2). The worker finishes that probe,
  counts it, marks it done, sees the event and leaves its loop without taking the second
  target, so the counter stays at 1 of 2. The second target stays queued and unfinished, so
  \<^verbatim>\<open>q.join()\<close> does not return: in the state reached no thread can move, the coordinator
  is still joining, and the status label still reads \<^verbatim>\<open>Checking: 1 / 2\<close>, not
  \<^verbatim>\<open>Status: Stopped\<close>.
\<close>

theorem C1_stop_with_targets_queued_blocks_the_join:
  "\<exists>s. run_schedule (\<lambda>u. Response 200 512)
         [Worker 0, Worker 0, Worker 0, StopClick, Worker 0, Worker 0, Worker 0, Worker 0,
          Worker 0]
         (start_pool [] [''http://example.com/a'', ''http://example.com/b''] 1) = Some s
       \<and> stop_event s \<and> workers s = [Exited] \<and> queue s = [''http://example.com/b'']
       \<and> unfinished_tasks s = 1 \<and> checked_count s = 1
       \<and> results s = [(200, 512, ''http://example.com/a'')]
       \<and> coord s = Joining \<and> status_label s = ''Checking: 1 / 2''
       \<and> (\<forall>a. act (\<lambda>u. Response 200 512) a s = None)"
proof -
  let ?net = "\<lambda>u::string. Response 200 512"
  let ?sched = "[Worker 0, Worker 0, Worker 0, StopClick, Worker 0, Worker 0, Worker 0,
          Worker 0, Worker 0]"
  let ?s0 = "start_pool [] [''http://example.com/a'', ''http://example.com/b''] 1"
  have "case run_schedule ?net ?sched ?s0 of
          None \<Rightarrow> False
        | Some s \<Rightarrow> stop_event s \<and> workers s = [Exited] \<and> queue s = [''http://example.com/b'']
            \<and> unfinished_tasks s = 1 \<and> checked_count s = 1
            \<and> results s = [(200, 512, ''http://example.com/a'')]
            \<and> coord s = Joining \<and> status_label s = ''Checking: 1 / 2''"
    by code_simp
  then obtain s where r: "run_schedule ?net ?sched ?s0 = Some s"
    and f: "stop_event s" "workers s = [Exited]" "queue s = [''http://example.com/b'']"
      "unfinished_tasks s = 1" "checked_count s = 1"
      "results s = [(200, 512, ''http://example.com/a'')]"
      "coord s = Joining" "status_label s = ''Checking: 1 / 2''"
    by (auto split: option.splits)
  have stuck: "act ?net a s = None" for a
  proof (cases a)
    case (Worker i)
    from f(2) have "list_all (\<lambda>w. w = Exited) (workers s)"
      by simp
    with Worker show ?thesis
      by (simp add: act_def all_exited_no_worker_step)
  next
    case Coordinator
    with f(4,7) show ?thesis
      by (simp add: act_def coord_step_def)
  next
    case StopClick
    with f(1) show ?thesis
      by (simp add: act_def stop_click_def)
  qed
  show ?thesis
  proof (intro exI conjI allI)
    show "run_schedule ?net ?sched ?s0 = Some s" by (rule r)
  qed (rule f stuck)+
qed

subsection \<open>Termination of a run\<close>













end
